theory Spec2Isabelle
  imports Complex_Main "HOL-Library.Sublist" "HOL-Library.Multiset"
begin

section \<open>Data model of the synchronizer (sync\_processor.py)\<close>

text \<open>
  The items travelling through the queues are Python dictionaries with a fixed set of keys.
  An event slice (built in \<^verbatim>\<open>PropheseeCamera.start_loop\<close>) has the keys
  \<^verbatim>\<open>event_volume\<close>, \<^verbatim>\<open>start_ts\<close> and \<^verbatim>\<open>end_ts\<close>; a frame (built in
  \<^verbatim>\<open>orbbec_worker\<close>) has \<^verbatim>\<open>rgb\<close>, \<^verbatim>\<open>depth\<close>, \<^verbatim>\<open>rgb_ts\<close> and \<^verbatim>\<open>depth_ts\<close>.
  \<^verbatim>\<open>record\<close> tests \<^verbatim>\<open>'rgb' in matched_orb\<close>, so the two images are optional
  fields: \<open>None\<close> stands for an absent key.

  Timestamps are microsecond counters of the devices. They are modelled as unbounded
  integers: the arithmetic of \<^verbatim>\<open>sync\<close> only adds and subtracts a few of them, and
  device counters stay far below the 64-bit range.
\<close>

type_synonym image = "nat list"
type_synonym events = "(int \<times> nat \<times> nat \<times> bool) list"

record evs_data =
  event_volume :: events
  start_ts :: int
  end_ts :: int

record orb_data =
  rgb :: "image option"
  depth :: "image option"
  rgb_ts :: int
  depth_ts :: int

text \<open>The dictionary \<^verbatim>\<open>data_bundle\<close> that \<^verbatim>\<open>record\<close> hands to the thread pool.\<close>

record data_bundle =
  idx :: nat
  bundle_rgb :: "image option"
  bundle_depth :: "image option"
  bundle_event_volume :: events
  bundle_start_ts :: int
  bundle_end_ts :: int

text \<open>
  The fields of \<^verbatim>\<open>SensorSynchronizer\<close> that \<^verbatim>\<open>sync\<close>, \<^verbatim>\<open>record\<close> and
  \<^verbatim>\<open>monitor_buffers\<close> read or write. The two deques are lists with the oldest element
  first. \<open>executor\<close> is the list of bundles submitted to the thread pool so far, in
  submission order. \<^verbatim>\<open>sync_threshold_us\<close> and \<^verbatim>\<open>drift_alpha\<close> are assigned once in
  \<^verbatim>\<open>__init__\<close> and never again, so they are constants.
\<close>

record synchronizer =
  evs_buffer :: "evs_data list"
  orb_buffer :: "orb_data list"
  diff_samples :: "int list"
  initial_delta_monitoring :: "int option"
  delta_orb_to_evs :: "int option"
  record_enabled :: bool
  record_idx :: nat
  executor :: "data_bundle list"

definition sync_threshold_us :: int where
  "sync_threshold_us = 5000"

definition drift_alpha :: rat where
  "drift_alpha = 1 / 100"

definition buffer_maxlen :: nat where
  "buffer_maxlen = 100"

datatype py_error = IndexError

text \<open>
  What one call of \<^verbatim>\<open>sync\<close> did. The source returns \<^verbatim>\<open>None\<close> on every path; the
  outcome names the path taken, and \<open>Matched\<close> carries the locals \<^verbatim>\<open>matched_evs\<close>
  and \<^verbatim>\<open>matched_orb\<close>.
\<close>

datatype outcome =
    NoAttempt
  | Matched evs_data orb_data
  | DroppedEvs
  | DroppedOrb
  | Waited

section \<open>Deque operations\<close>

text \<open>\<^verbatim>\<open>deque.popleft()\<close> raises IndexError on an empty deque.\<close>

fun popleft :: "'a list \<Rightarrow> py_error + ('a \<times> 'a list)" where
  "popleft [] = Inl IndexError"
| "popleft (x # xs) = Inr (x, xs)"

text \<open>\<^verbatim>\<open>for _ in range(n): buf.popleft()\<close>\<close>

fun popleft_n :: "nat \<Rightarrow> 'a list \<Rightarrow> py_error + 'a list" where
  "popleft_n 0 xs = Inr xs"
| "popleft_n (Suc n) xs =
     (case popleft xs of
        Inl e \<Rightarrow> Inl e
      | Inr (_, rest) \<Rightarrow> popleft_n n rest)"

text \<open>\<^verbatim>\<open>buf[0]\<close> and \<^verbatim>\<open>buf[-1]\<close> raise IndexError on an empty deque.\<close>

fun first_item :: "'a list \<Rightarrow> py_error + 'a" where
  "first_item [] = Inl IndexError"
| "first_item (x # xs) = Inr x"

fun last_item :: "'a list \<Rightarrow> py_error + 'a" where
  "last_item [] = Inl IndexError"
| "last_item (x # xs) = Inr (last (x # xs))"

text \<open>
  \<^verbatim>\<open>deque(maxlen=100).append(x)\<close>: when the deque is full, the item at the opposite
  (left) end is discarded.
\<close>

definition deque_append :: "'a list \<Rightarrow> 'a \<Rightarrow> 'a list" where
  "deque_append buf x =
     (if length buf < buffer_maxlen then buf @ [x] else tl buf @ [x])"

section \<open>The match attempt\<close>

text \<open>
  \<^verbatim>\<open>min_diff\<close> starts as \<^verbatim>\<open>float('inf')\<close>: \<open>None\<close> is infinity, and
  \<open>lt_inf d m\<close> is the comparison \<^verbatim>\<open>d < m\<close>.
\<close>

fun lt_inf :: "int \<Rightarrow> int option \<Rightarrow> bool" where
  "lt_inf d None = True"
| "lt_inf d (Some m) = (d < m)"

definition mapped_diff :: "int \<Rightarrow> int \<Rightarrow> orb_data \<Rightarrow> int" where
  "mapped_diff delta evs_ts orb =
     (let mapped_orb_ts = rgb_ts orb + delta in \<bar>mapped_orb_ts - evs_ts\<bar>)"

text \<open>
  The loop \<^verbatim>\<open>for i, orb in enumerate(self.orb_buffer)\<close>; the accumulator is the pair
  \<^verbatim>\<open>(best_match_idx, min_diff)\<close>.
\<close>

fun scan_orb_buffer ::
  "int \<Rightarrow> int \<Rightarrow> orb_data list \<Rightarrow> nat \<Rightarrow> nat option \<times> int option \<Rightarrow> nat option \<times> int option" where
  "scan_orb_buffer delta evs_ts [] i acc = acc"
| "scan_orb_buffer delta evs_ts (orb # rest) i (best_match_idx, min_diff) =
     (let diff = mapped_diff delta evs_ts orb in
      if lt_inf diff min_diff
      then scan_orb_buffer delta evs_ts rest (Suc i) (Some i, Some diff)
      else scan_orb_buffer delta evs_ts rest (Suc i) (best_match_idx, min_diff))"

text \<open>
  \<^verbatim>\<open>int(x)\<close> on a float truncates toward zero. The product
  \<^verbatim>\<open>current_error * self.drift_alpha\<close> is a float; it is modelled by the exact
  rational product. On the branch that computes it, \<open>\<bar>current_error\<bar> < 5000\<close>, and on
  that range the truncation of the float product and of the exact product coincide
  (the product is either an integer of magnitude below 50, which the float
  multiplication returns exactly, or at least 0.01 away from every integer).
\<close>

definition py_int :: "rat \<Rightarrow> int" where
  "py_int x = (if 0 \<le> x then \<lfloor>x\<rfloor> else \<lceil>x\<rceil>)"

text \<open>\<^verbatim>\<open>SensorSynchronizer.record\<close>: build the bundle, submit it, advance the index.\<close>

definition record_matched :: "synchronizer \<Rightarrow> evs_data \<Rightarrow> orb_data \<Rightarrow> synchronizer" where
  "record_matched s matched_evs matched_orb =
     (let bundle_dict = \<lparr> idx = record_idx s,
                          bundle_rgb = rgb matched_orb,
                          bundle_depth = depth matched_orb,
                          bundle_event_volume = event_volume matched_evs,
                          bundle_start_ts = start_ts matched_evs,
                          bundle_end_ts = end_ts matched_evs \<rparr>
      in s\<lparr> executor := executor s @ [bundle_dict], record_idx := record_idx s + 1 \<rparr>)"

text \<open>The branch \<^verbatim>\<open># successfully matched\<close> of \<^verbatim>\<open>sync\<close>.\<close>

definition commit_match ::
  "synchronizer \<Rightarrow> int \<Rightarrow> int \<Rightarrow> nat \<Rightarrow> int \<Rightarrow> py_error + (synchronizer \<times> outcome)" where
  "commit_match s delta evs_ts best_match_idx min_diff =
     (case popleft (evs_buffer s) of
        Inl e \<Rightarrow> Inl e
      | Inr (matched_evs, evs_rest) \<Rightarrow>
          (case popleft_n best_match_idx (orb_buffer s) of
             Inl e \<Rightarrow> Inl e
           | Inr orb_mid \<Rightarrow>
               (case popleft orb_mid of
                  Inl e \<Rightarrow> Inl e
                | Inr (matched_orb, orb_rest) \<Rightarrow>
                    (let current_error = evs_ts - (rgb_ts matched_orb + delta);
                         s1 = s\<lparr> evs_buffer := evs_rest,
                                 orb_buffer := orb_rest,
                                 delta_orb_to_evs :=
                                   Some (delta + py_int (of_int current_error * drift_alpha)),
                                 diff_samples := diff_samples s @ [min_diff] \<rparr>;
                         s2 = (if record_enabled s1
                               then record_matched s1 matched_evs matched_orb
                               else s1)
                     in Inr (s2, Matched matched_evs matched_orb)))))"

text \<open>The \<^verbatim>\<open>else\<close> branch of \<^verbatim>\<open>sync\<close>: staleness eviction.\<close>

definition evict_stale ::
  "synchronizer \<Rightarrow> int \<Rightarrow> int \<Rightarrow> py_error + (synchronizer \<times> outcome)" where
  "evict_stale s delta evs_ts =
     (case first_item (orb_buffer s) of
        Inl e \<Rightarrow> Inl e
      | Inr oldest \<Rightarrow>
          (case last_item (orb_buffer s) of
             Inl e \<Rightarrow> Inl e
           | Inr newest \<Rightarrow>
               (let mapped_oldest_orb_ts = rgb_ts oldest + delta;
                    mapped_newest_orb_ts = rgb_ts newest + delta
                in if evs_ts < mapped_oldest_orb_ts - sync_threshold_us
                   then (case popleft (evs_buffer s) of
                           Inl e \<Rightarrow> Inl e
                         | Inr (_, evs_rest) \<Rightarrow> Inr (s\<lparr> evs_buffer := evs_rest \<rparr>, DroppedEvs))
                   else if evs_ts > mapped_newest_orb_ts + sync_threshold_us
                   then (case popleft (orb_buffer s) of
                           Inl e \<Rightarrow> Inl e
                         | Inr (_, orb_rest) \<Rightarrow> Inr (s\<lparr> orb_buffer := orb_rest \<rparr>, DroppedOrb))
                   else Inr (s, Waited))))"

text \<open>
  The block \<^verbatim>\<open>if self.delta_orb_to_evs is None\<close>: the offset is seeded from the
  front elements of the two buffers, and the same value is kept for monitoring. The
  result is the state and the offset the rest of \<^verbatim>\<open>sync\<close> reads.
\<close>

definition seed_delta :: "synchronizer \<Rightarrow> int \<Rightarrow> py_error + (synchronizer \<times> int)" where
  "seed_delta s evs_ts =
     (case delta_orb_to_evs s of
        Some delta \<Rightarrow> Inr (s, delta)
      | None \<Rightarrow>
          (case first_item (orb_buffer s) of
             Inl e \<Rightarrow> Inl e
           | Inr orb \<Rightarrow>
               (let delta = evs_ts - rgb_ts orb in
                Inr (s\<lparr> delta_orb_to_evs := Some delta,
                        initial_delta_monitoring := Some delta \<rparr>, delta))))"

text \<open>
  \<^verbatim>\<open>SensorSynchronizer.sync\<close>. After the emptiness check the oldest slice is read, the
  offset is seeded when it is still \<^verbatim>\<open>None\<close>, the frame buffer is scanned, and one of
  the two branches runs. The test
  \<^verbatim>\<open>best_match_idx != None and min_diff < self.sync_threshold_us\<close> is the case
  distinction on the scan's result: an infinite \<^verbatim>\<open>min_diff\<close> is not below the
  threshold.
\<close>

definition sync :: "synchronizer \<Rightarrow> py_error + (synchronizer \<times> outcome)" where
  "sync s =
     (if evs_buffer s = [] \<or> orb_buffer s = [] then Inr (s, NoAttempt)
      else
        (case first_item (evs_buffer s) of
           Inl e \<Rightarrow> Inl e
         | Inr evs \<Rightarrow>
             (let evs_ts = start_ts evs in
              (case seed_delta s evs_ts of
                 Inl e \<Rightarrow> Inl e
               | Inr (s1, delta) \<Rightarrow>
                   (case scan_orb_buffer delta evs_ts (orb_buffer s1) 0 (None, None) of
                      (Some best_match_idx, Some min_diff) \<Rightarrow>
                        (if min_diff < sync_threshold_us
                         then commit_match s1 delta evs_ts best_match_idx min_diff
                         else evict_stale s1 delta evs_ts)
                    | _ \<Rightarrow> evict_stale s1 delta evs_ts)))))"

section \<open>The processor loop\<close>

text \<open>
  \<^verbatim>\<open>monitor_buffers\<close> prints the buffer lengths, the drift and the error statistics;
  its only effect on the state is to clear \<^verbatim>\<open>diff_samples\<close>.
\<close>

definition monitor_buffers :: "synchronizer \<Rightarrow> synchronizer" where
  "monitor_buffers s = s\<lparr> diff_samples := [] \<rparr>"

text \<open>
  One iteration of the loop of \<^verbatim>\<open>sync_process\<close>. Its inputs are what the two
  \<^verbatim>\<open>get_nowait\<close> calls return (\<open>None\<close> for \<^verbatim>\<open>Empty\<close>) and whether five seconds
  have passed since the last monitor report.
\<close>

type_synonym tick_input = "evs_data option \<times> orb_data option \<times> bool"

definition pull :: "synchronizer \<Rightarrow> tick_input \<Rightarrow> synchronizer" where
  "pull s inp =
     (case inp of (evs_in, orb_in, monitor_due) \<Rightarrow>
        (let s1 = (case evs_in of
                     Some evs \<Rightarrow> s\<lparr> evs_buffer := deque_append (evs_buffer s) evs \<rparr>
                   | None \<Rightarrow> s);
             s2 = (case orb_in of
                     Some orb \<Rightarrow> s1\<lparr> orb_buffer := deque_append (orb_buffer s1) orb \<rparr>
                   | None \<Rightarrow> s1)
         in s2))"

definition tick :: "synchronizer \<Rightarrow> tick_input \<Rightarrow> py_error + (synchronizer \<times> outcome)" where
  "tick s inp =
     (let s2 = pull s inp in
      (case (if length (evs_buffer s2) > 0 \<and> length (orb_buffer s2) > 0
             then sync s2 else Inr (s2, NoAttempt)) of
         Inl e \<Rightarrow> Inl e
       | Inr (s3, out) \<Rightarrow>
           Inr (if snd (snd inp) then monitor_buffers s3 else s3, out)))"

text \<open>
  The loop runs until the stop event is set; a run is the finite list of the inputs of
  its iterations. The result is the final state and the outcome of every iteration.
\<close>

fun sync_process ::
  "synchronizer \<Rightarrow> tick_input list \<Rightarrow> py_error + (synchronizer \<times> outcome list)" where
  "sync_process s [] = Inr (s, [])"
| "sync_process s (inp # inps) =
     (case tick s inp of
        Inl e \<Rightarrow> Inl e
      | Inr (s1, out) \<Rightarrow>
          (case sync_process s1 inps of
             Inl e \<Rightarrow> Inl e
           | Inr (s2, outs) \<Rightarrow> Inr (s2, out # outs)))"

text \<open>The state \<^verbatim>\<open>__init__\<close> builds.\<close>

definition init :: "bool \<Rightarrow> synchronizer" where
  "init enabled =
     \<lparr> evs_buffer = [], orb_buffer = [], diff_samples = [],
       initial_delta_monitoring = None, delta_orb_to_evs = None,
       record_enabled = enabled, record_idx = 0, executor = [] \<rparr>"

text \<open>What a run consumed and what it matched.\<close>

fun evs_inputs :: "tick_input list \<Rightarrow> evs_data list" where
  "evs_inputs [] = []"
| "evs_inputs ((Some evs, _, _) # inps) = evs # evs_inputs inps"
| "evs_inputs ((None, _, _) # inps) = evs_inputs inps"

fun orb_inputs :: "tick_input list \<Rightarrow> orb_data list" where
  "orb_inputs [] = []"
| "orb_inputs ((_, Some orb, _) # inps) = orb # orb_inputs inps"
| "orb_inputs ((_, None, _) # inps) = orb_inputs inps"

fun matched_pairs :: "outcome list \<Rightarrow> (evs_data \<times> orb_data) list" where
  "matched_pairs [] = []"
| "matched_pairs (Matched evs orb # outs) = (evs, orb) # matched_pairs outs"
| "matched_pairs (_ # outs) = matched_pairs outs"

section \<open>The persistence tasks\<close>










text \<open>The bundle \<^verbatim>\<open>record\<close> builds for a matched pair under a given index.\<close>

definition bundle_of :: "nat \<Rightarrow> evs_data \<times> orb_data \<Rightarrow> data_bundle" where
  "bundle_of k pair =
     \<lparr> idx = k,
       bundle_rgb = rgb (snd pair),
       bundle_depth = depth (snd pair),
       bundle_event_volume = event_volume (fst pair),
       bundle_start_ts = start_ts (fst pair),
       bundle_end_ts = end_ts (fst pair) \<rparr>"






text \<open>The bundles submitted for a list of matched pairs, numbered from \<open>k\<close> on.\<close>

fun bundles_from :: "nat \<Rightarrow> (evs_data \<times> orb_data) list \<Rightarrow> data_bundle list" where
  "bundles_from k [] = []"
| "bundles_from k (pair # pairs) = bundle_of k pair # bundles_from (Suc k) pairs"

section \<open>The producers' queues (main.py, prophesee.py)\<close>

text \<open>
  A \<^verbatim>\<open>multiprocessing.Queue(maxsize=n)\<close> with its items, oldest first.
  \<^verbatim>\<open>full()\<close> tells whether it holds \<open>n\<close> items. \<^verbatim>\<open>put(x)\<close> is called without
  \<^verbatim>\<open>block=False\<close> and without a timeout: on a full queue it waits until a consumer
  takes an item, which is the result \<open>Blocks\<close>. \<^verbatim>\<open>get_nowait()\<close> raises
  \<^verbatim>\<open>Empty\<close> on an empty queue.
\<close>

record 'a mp_queue =
  maxsize :: nat
  items :: "'a list"

definition full :: "'a mp_queue \<Rightarrow> bool" where
  "full q = (maxsize q \<le> length (items q))"

datatype 'a put_result = Put "'a mp_queue" | Blocks

definition put :: "'a mp_queue \<Rightarrow> 'a \<Rightarrow> 'a put_result" where
  "put q x = (if full q then Blocks else Put (q\<lparr> items := items q @ [x] \<rparr>))"

datatype queue_error = Empty

definition get_nowait :: "'a mp_queue \<Rightarrow> queue_error + ('a \<times> 'a mp_queue)" where
  "get_nowait q =
     (case items q of
        [] \<Rightarrow> Inl Empty
      | x # rest \<Rightarrow> Inr (x, q\<lparr> items := rest \<rparr>))"

text \<open>
  What a piece of producer code does to its state: it runs to its end, it waits in a
  \<^verbatim>\<open>put\<close> (the state is the one it waits in), or it raises.
\<close>

datatype 'st step = Continues 'st | Blocked 'st | Raises 'st

text \<open>
  The push of a finished slice in \<^verbatim>\<open>PropheseeCamera.start_loop\<close>:
  \<^verbatim>\<open>if not slice_queue.full(): slice_queue.put(...) else: print(...)\<close>. The state is
  the slice queue and the lines printed so far.
\<close>

definition slice_warning :: string where
  "slice_warning = ''[WARNNING!!!] [Prophesee] Slice queue is full. Skipping this slice.''"

definition put_slice ::
  "evs_data mp_queue \<times> string list \<Rightarrow> evs_data \<Rightarrow> (evs_data mp_queue \<times> string list) step" where
  "put_slice st slice =
     (case st of (slice_queue, printed) \<Rightarrow>
        (if \<not> full slice_queue
         then (case put slice_queue slice of
                 Put q \<Rightarrow> Continues (q, printed)
               | Blocks \<Rightarrow> Blocked (slice_queue, printed))
         else Continues (slice_queue, printed @ [slice_warning])))"

fun put_slices ::
  "evs_data mp_queue \<times> string list \<Rightarrow> evs_data list \<Rightarrow> (evs_data mp_queue \<times> string list) step" where
  "put_slices st [] = Continues st"
| "put_slices st (slice # slices) =
     (case put_slice st slice of
        Continues st1 \<Rightarrow> put_slices st1 slices
      | Blocked st1 \<Rightarrow> Blocked st1
      | Raises st1 \<Rightarrow> Raises st1)"

text \<open>
  What \<^verbatim>\<open>get_frames\<close> returns to \<^verbatim>\<open>orbbec_worker\<close>, the item the worker puts
  on the display queue, and \<^verbatim>\<open>pc[::15]\<close>, every fifteenth row of the point cloud.
  Points are opaque values.
\<close>

type_synonym point_cloud = "nat list"

record capture =
  cap_rgb :: "image option"
  cap_depth :: "image option"
  cap_pc :: "point_cloud option"
  o_c_ts :: int
  o_d_ts :: int

record display_item =
  display_rgb :: image
  display_depth :: image
  display_pc :: "point_cloud option"

fun every_15th :: "'a list \<Rightarrow> 'a list" where
  "every_15th [] = []"
| "every_15th (x # xs) = x # every_15th (drop 14 xs)"

text \<open>
  The state of \<^verbatim>\<open>orbbec_worker\<close>: its two queue parameters, the lines printed so
  far, and what the name \<^verbatim>\<open>p_queue\<close> refers to. The name is not a parameter of the
  worker. In the worker process, started with the \<^verbatim>\<open>spawn\<close> method, the module-level
  assignment under \<^verbatim>\<open>if __name__ == "__main__"\<close> has not run and the name is unbound
  (\<open>None\<close>); were it bound, it would be the display queue of the event camera.
\<close>

record worker_state =
  o_queue :: "display_item mp_queue"
  o_queue_sync :: "orb_data mp_queue"
  p_queue :: "image mp_queue option"
  printed :: "string list"

definition sync_queue_warning :: string where
  "sync_queue_warning = ''[WARNING!!!] [Orbbec] orbbec sync queue is full. Dropping frame.''"

text \<open>
  The \<^verbatim>\<open>try: p_queue.get_nowait() except: pass\<close> of the worker: a NameError when the
  name is unbound and an \<^verbatim>\<open>Empty\<close> are both swallowed.
\<close>

definition try_drain_p_queue :: "worker_state \<Rightarrow> worker_state" where
  "try_drain_p_queue st =
     (case p_queue st of
        None \<Rightarrow> st
      | Some q \<Rightarrow>
          (case get_nowait q of
             Inl e \<Rightarrow> st
           | Inr (_, q1) \<Rightarrow> st\<lparr> p_queue := Some q1 \<rparr>))"

text \<open>
  The body of the loop of \<^verbatim>\<open>orbbec_worker\<close> for one result of \<^verbatim>\<open>get_frames\<close>.
  \<^verbatim>\<open>depth.copy()\<close> raises when \<^verbatim>\<open>depth\<close> is \<^verbatim>\<open>None\<close>.
\<close>

definition orbbec_worker_body :: "worker_state \<Rightarrow> capture \<Rightarrow> worker_state step" where
  "orbbec_worker_body st cap =
     (case cap_rgb cap of
        None \<Rightarrow> Continues st
      | Some rgb_img \<Rightarrow>
          (let st1 = (if full (o_queue st) then try_drain_p_queue st else st);
               st2 = (if full (o_queue_sync st1)
                      then st1\<lparr> printed := printed st1 @ [sync_queue_warning] \<rparr>
                      else st1)
           in (case cap_depth cap of
                 None \<Rightarrow> Raises st2
               | Some depth_img \<Rightarrow>
                   (case put (o_queue st2)
                           \<lparr> display_rgb = rgb_img, display_depth = depth_img,
                             display_pc = map_option every_15th (cap_pc cap) \<rparr> of
                      Blocks \<Rightarrow> Blocked st2
                    | Put q \<Rightarrow>
                        (let st3 = st2\<lparr> o_queue := q \<rparr> in
                         (case put (o_queue_sync st3)
                                 \<lparr> rgb = Some rgb_img, depth = Some depth_img,
                                   rgb_ts = o_c_ts cap, depth_ts = o_d_ts cap \<rparr> of
                            Blocks \<Rightarrow> Blocked st3
                          | Put q_sync \<Rightarrow> Continues (st3\<lparr> o_queue_sync := q_sync \<rparr>)))))))"

section \<open>Notions used to state the properties\<close>

text \<open>
  The offset a match attempt works with: the stored one, or, when none is stored yet, the
  seed computed from the front elements of the two buffers.
\<close>

definition offset_at :: "synchronizer \<Rightarrow> int" where
  "offset_at s =
     (case delta_orb_to_evs s of
        Some delta \<Rightarrow> delta
      | None \<Rightarrow> start_ts (hd (evs_buffer s)) - rgb_ts (hd (orb_buffer s)))"

definition seeded :: "synchronizer \<Rightarrow> synchronizer" where
  "seeded s =
     (case delta_orb_to_evs s of
        Some delta \<Rightarrow> s
      | None \<Rightarrow> s\<lparr> delta_orb_to_evs := Some (offset_at s),
                    initial_delta_monitoring := Some (offset_at s) \<rparr>)"

text \<open>
  \<open>is_best delta evs_ts buf i\<close>: index \<open>i\<close> minimises the mapped difference over the
  buffer, and every earlier index has a strictly larger difference.
\<close>

definition is_best :: "int \<Rightarrow> int \<Rightarrow> orb_data list \<Rightarrow> nat \<Rightarrow> bool" where
  "is_best d ts xs i \<longleftrightarrow>
     i < length xs \<and>
     (\<forall>j<length xs. mapped_diff d ts (xs ! i) \<le> mapped_diff d ts (xs ! j)) \<and>
     (\<forall>j<i. mapped_diff d ts (xs ! i) < mapped_diff d ts (xs ! j))"

text \<open>What the scan has established after a suffix of the buffer, from index \<open>k\<close> on.\<close>

definition scan_post ::
  "int \<Rightarrow> int \<Rightarrow> orb_data list \<Rightarrow> nat \<Rightarrow> nat option \<Rightarrow> int option \<Rightarrow> nat option \<Rightarrow> int \<Rightarrow> bool" where
  "scan_post d ts xs k b m b' v \<longleftrightarrow>
     (\<forall>j<length xs. v \<le> mapped_diff d ts (xs ! j)) \<and>
     ((b' = b \<and> Some v = m) \<or>
      (\<exists>i<length xs. b' = Some (k + i) \<and> v = mapped_diff d ts (xs ! i) \<and>
          (\<forall>j<i. v < mapped_diff d ts (xs ! j)) \<and> lt_inf v m))"

text \<open>The state after the matched branch took the frame at index \<open>i\<close>.\<close>

definition committed :: "synchronizer \<Rightarrow> int \<Rightarrow> int \<Rightarrow> nat \<Rightarrow> int \<Rightarrow> synchronizer" where
  "committed s delta evs_ts i min_diff =
     (let matched_evs = hd (evs_buffer s);
          matched_orb = orb_buffer s ! i;
          s1 = s\<lparr> evs_buffer := tl (evs_buffer s),
                  orb_buffer := drop (Suc i) (orb_buffer s),
                  delta_orb_to_evs :=
                    Some (delta + py_int (of_int (evs_ts - (rgb_ts matched_orb + delta)) * drift_alpha)),
                  diff_samples := diff_samples s @ [min_diff] \<rparr>
      in if record_enabled s then record_matched s1 matched_evs matched_orb else s1)"

section \<open>Concrete inputs\<close>

text \<open>
  Slices and frames with given timestamps and empty payloads, and a synchronizer state
  holding them, with a given offset and recording switched on.
\<close>

definition mk_evs :: "int \<Rightarrow> evs_data" where
  "mk_evs t = \<lparr> event_volume = [], start_ts = t, end_ts = t + 33000 \<rparr>"

definition mk_orb :: "int \<Rightarrow> orb_data" where
  "mk_orb t = \<lparr> rgb = Some [], depth = Some [], rgb_ts = t, depth_ts = t \<rparr>"

definition mk_state :: "int option \<Rightarrow> int list \<Rightarrow> int list \<Rightarrow> synchronizer" where
  "mk_state delta evs_tss orb_tss =
     \<lparr> evs_buffer = map mk_evs evs_tss, orb_buffer = map mk_orb orb_tss, diff_samples = [],
       initial_delta_monitoring = delta, delta_orb_to_evs = delta,
       record_enabled = True, record_idx = 0, executor = [] \<rparr>"

text \<open>Concrete queues and captures.\<close>

definition mk_capture :: "int \<Rightarrow> capture" where
  "mk_capture t =
     \<lparr> cap_rgb = Some [], cap_depth = Some [], cap_pc = None, o_c_ts = t, o_d_ts = t \<rparr>"

definition mk_display :: "nat \<Rightarrow> display_item" where
  "mk_display n = \<lparr> display_rgb = [n], display_depth = [n], display_pc = None \<rparr>"

definition mk_worker :: "display_item list \<Rightarrow> int list \<Rightarrow> worker_state" where
  "mk_worker shown tss =
     \<lparr> o_queue = \<lparr> maxsize = 1, items = shown \<rparr>,
       o_queue_sync = \<lparr> maxsize = 5, items = map mk_orb tss \<rparr>,
       p_queue = None,
       printed = [] \<rparr>"

text \<open>Reading the result of a call: the outcome, and the offset stored afterwards.\<close>

definition outcome_of :: "py_error + (synchronizer \<times> outcome) \<Rightarrow> outcome option" where
  "outcome_of r = (case r of Inl e \<Rightarrow> None | Inr (s, out) \<Rightarrow> Some out)"

definition offset_after :: "py_error + (synchronizer \<times> outcome) \<Rightarrow> int option" where
  "offset_after r = (case r of Inl e \<Rightarrow> None | Inr (s, out) \<Rightarrow> delta_orb_to_evs s)"

definition matched_of ::
  "py_error + (synchronizer \<times> outcome list) \<Rightarrow> (evs_data \<times> orb_data) list" where
  "matched_of r = (case r of Inl e \<Rightarrow> [] | Inr (s, outs) \<Rightarrow> matched_pairs outs)"


section \<open>The scan of the frame buffer\<close>

lemma popleft_n_drop: "n \<le> length xs \<Longrightarrow> popleft_n n xs = Inr (drop n xs)"
  by (induction n xs rule: popleft_n.induct) (auto split: sum.splits list.splits elim: popleft.elims)

lemma popleft_nth: "n < length xs \<Longrightarrow> popleft (drop n xs) = Inr (xs ! n, drop (Suc n) xs)"
  by (simp add: Cons_nth_drop_Suc[symmetric])

lemma lt_inf_trans: "v < d \<Longrightarrow> lt_inf d m \<Longrightarrow> lt_inf v m"
  by (cases m) auto

lemma not_lt_inf: "\<not> lt_inf d m \<Longrightarrow> \<exists>m0. m = Some m0 \<and> m0 \<le> d"
  by (cases m) auto

lemma scan_post_take:
  assumes "lt_inf (mapped_diff d ts x) m"
    and "scan_post d ts xs (Suc k) (Some k) (Some (mapped_diff d ts x)) b' v"
  shows "scan_post d ts (x # xs) k b m b' v"
proof -
  let ?dx = "mapped_diff d ts x"
  from assms(2) have le: "\<forall>j<length xs. v \<le> mapped_diff d ts (xs ! j)"
    by (simp add: scan_post_def)
  from assms(2) consider
      (same) "b' = Some k" "v = ?dx"
    | (later) i where "i < length xs" "b' = Some (Suc k + i)" "v = mapped_diff d ts (xs ! i)"
        "\<forall>j<i. v < mapped_diff d ts (xs ! j)" "v < ?dx"
    by (auto simp: scan_post_def)
  then show ?thesis
  proof cases
    case same
    have "\<forall>j<length (x # xs). v \<le> mapped_diff d ts ((x # xs) ! j)"
      using le same by (auto simp: nth_Cons split: nat.splits)
    moreover have "0 < length (x # xs) \<and> b' = Some (k + 0) \<and> v = mapped_diff d ts ((x # xs) ! 0) \<and>
        (\<forall>j<0. v < mapped_diff d ts ((x # xs) ! j)) \<and> lt_inf v m"
      using same assms(1) by simp
    ultimately show ?thesis unfolding scan_post_def by blast
  next
    case later
    have "\<forall>j<length (x # xs). v \<le> mapped_diff d ts ((x # xs) ! j)"
      using le later by (auto simp: nth_Cons split: nat.splits)
    moreover have "Suc i < length (x # xs) \<and> b' = Some (k + Suc i) \<and>
        v = mapped_diff d ts ((x # xs) ! Suc i) \<and>
        (\<forall>j<Suc i. v < mapped_diff d ts ((x # xs) ! j)) \<and> lt_inf v m"
      using later lt_inf_trans[OF later(5) assms(1)] by (auto simp: nth_Cons split: nat.splits)
    ultimately show ?thesis unfolding scan_post_def by blast
  qed
qed

lemma scan_post_skip:
  assumes "\<not> lt_inf (mapped_diff d ts x) m"
    and "scan_post d ts xs (Suc k) b m b' v"
  shows "scan_post d ts (x # xs) k b m b' v"
proof -
  let ?dx = "mapped_diff d ts x"
  from not_lt_inf[OF assms(1)] obtain m0 where m0: "m = Some m0" "m0 \<le> ?dx" by blast
  from assms(2) have le: "\<forall>j<length xs. v \<le> mapped_diff d ts (xs ! j)"
    by (simp add: scan_post_def)
  from assms(2) consider
      (same) "b' = b" "Some v = m"
    | (later) i where "i < length xs" "b' = Some (Suc k + i)" "v = mapped_diff d ts (xs ! i)"
        "\<forall>j<i. v < mapped_diff d ts (xs ! j)" "lt_inf v m"
    by (auto simp: scan_post_def)
  then show ?thesis
  proof cases
    case same
    have "\<forall>j<length (x # xs). v \<le> mapped_diff d ts ((x # xs) ! j)"
      using le same m0 by (auto simp: nth_Cons split: nat.splits)
    then show ?thesis unfolding scan_post_def using same by blast
  next
    case later
    have vlt: "v < ?dx" using later(5) m0 by simp
    have "\<forall>j<length (x # xs). v \<le> mapped_diff d ts ((x # xs) ! j)"
      using le vlt by (auto simp: nth_Cons split: nat.splits)
    moreover have "Suc i < length (x # xs) \<and> b' = Some (k + Suc i) \<and>
        v = mapped_diff d ts ((x # xs) ! Suc i) \<and>
        (\<forall>j<Suc i. v < mapped_diff d ts ((x # xs) ! j)) \<and> lt_inf v m"
      using later vlt by (auto simp: nth_Cons split: nat.splits)
    ultimately show ?thesis unfolding scan_post_def by blast
  qed
qed

lemma scan_spec:
  "scan_orb_buffer d ts xs k (b, m) = (b', m') \<Longrightarrow>
     (case m' of
        None \<Rightarrow> xs = [] \<and> m = None \<and> b' = b
      | Some v \<Rightarrow> scan_post d ts xs k b m b' v)"
proof (induction xs arbitrary: k b m)
  case Nil
  then show ?case by (auto simp: scan_post_def split: option.splits)
next
  case (Cons x xs)
  show ?case
  proof (cases "lt_inf (mapped_diff d ts x) m")
    case True
    with Cons.prems
    have run: "scan_orb_buffer d ts xs (Suc k) (Some k, Some (mapped_diff d ts x)) = (b', m')"
      by simp
    from Cons.IH[OF run] obtain v where v: "m' = Some v"
      "scan_post d ts xs (Suc k) (Some k) (Some (mapped_diff d ts x)) b' v"
      by (cases m') auto
    from scan_post_take[OF True v(2)] v(1) show ?thesis by simp
  next
    case False
    with Cons.prems
    have run: "scan_orb_buffer d ts xs (Suc k) (b, m) = (b', m')"
      by simp
    from not_lt_inf[OF False] obtain m0 where m0: "m = Some m0" by blast
    from Cons.IH[OF run] m0 obtain v where v: "m' = Some v"
      "scan_post d ts xs (Suc k) b m b' v"
      by (cases m') auto
    from scan_post_skip[OF False v(2)] v(1) show ?thesis by simp
  qed
qed

lemma scan_nonempty:
  assumes "xs \<noteq> []"
  shows "\<exists>i. scan_orb_buffer d ts xs 0 (None, None) = (Some i, Some (mapped_diff d ts (xs ! i)))
           \<and> is_best d ts xs i"
proof -
  obtain b' m' where r: "scan_orb_buffer d ts xs 0 (None, None) = (b', m')"
    by (cases "scan_orb_buffer d ts xs 0 (None, None)") auto
  from scan_spec[OF r] assms obtain v where v: "m' = Some v" "scan_post d ts xs 0 None None b' v"
    by (cases m') auto
  from v(2) obtain i where "i < length xs" "b' = Some i" "v = mapped_diff d ts (xs ! i)"
    "\<forall>j<i. v < mapped_diff d ts (xs ! j)" "\<forall>j<length xs. v \<le> mapped_diff d ts (xs ! j)"
    by (auto simp: scan_post_def)
  with r v(1) show ?thesis by (auto simp: is_best_def)
qed

lemma is_best_unique: "is_best d ts xs i \<Longrightarrow> is_best d ts xs j \<Longrightarrow> i = j"
  unfolding is_best_def by (metis linorder_neqE_nat order.strict_trans2 less_irrefl)

section \<open>One call of sync, branch by branch\<close>

lemma seed_delta_eq:
  assumes "evs_buffer s = e # es" "orb_buffer s = f # fs"
  shows "seed_delta s (start_ts e) = Inr (seeded s, offset_at s)"
  using assms by (simp add: seed_delta_def seeded_def offset_at_def Let_def split: option.splits)

lemma seeded_buffers [simp]:
  "evs_buffer (seeded s) = evs_buffer s" "orb_buffer (seeded s) = orb_buffer s"
  "record_enabled (seeded s) = record_enabled s" "record_idx (seeded s) = record_idx s"
  "executor (seeded s) = executor s" "diff_samples (seeded s) = diff_samples s"
  by (simp_all add: seeded_def split: option.splits)

lemma seeded_delta [simp]: "delta_orb_to_evs (seeded s) = Some (offset_at s)"
  by (simp add: seeded_def offset_at_def split: option.splits)

lemma commit_match_eq:
  assumes "evs_buffer s = e # es" "i < length (orb_buffer s)"
  shows "commit_match s delta evs_ts i m =
           Inr (committed s delta evs_ts i m, Matched e (orb_buffer s ! i))"
  using assms
  by (simp add: commit_match_def committed_def popleft_n_drop popleft_nth Let_def)

lemma evict_stale_eq:
  assumes "evs_buffer s = e # es" "orb_buffer s = f # fs"
  shows "evict_stale s delta evs_ts =
           Inr (if evs_ts < rgb_ts f + delta - sync_threshold_us
                then (s\<lparr> evs_buffer := es \<rparr>, DroppedEvs)
                else if evs_ts > rgb_ts (last (f # fs)) + delta + sync_threshold_us
                then (s\<lparr> orb_buffer := fs \<rparr>, DroppedOrb)
                else (s, Waited))"
  using assms by (simp add: evict_stale_def Let_def)

lemma sync_nonempty:
  assumes "evs_buffer s = e # es" "orb_buffer s = f # fs"
  shows "\<exists>i. is_best (offset_at s) (start_ts e) (f # fs) i \<and>
           sync s =
             (if mapped_diff (offset_at s) (start_ts e) ((f # fs) ! i) < sync_threshold_us
              then Inr (committed (seeded s) (offset_at s) (start_ts e) i
                          (mapped_diff (offset_at s) (start_ts e) ((f # fs) ! i)),
                        Matched e ((f # fs) ! i))
              else evict_stale (seeded s) (offset_at s) (start_ts e))"
proof -
  from scan_nonempty[of "f # fs" "offset_at s" "start_ts e"] obtain i where
    i: "scan_orb_buffer (offset_at s) (start_ts e) (f # fs) 0 (None, None) =
          (Some i, Some (mapped_diff (offset_at s) (start_ts e) ((f # fs) ! i)))"
       "is_best (offset_at s) (start_ts e) (f # fs) i"
    by blast
  from i(2) have len: "i < length (orb_buffer (seeded s))"
    using assms by (simp add: is_best_def)
  have ev: "evs_buffer (seeded s) = e # es" using assms by simp
  have "sync s =
             (if mapped_diff (offset_at s) (start_ts e) ((f # fs) ! i) < sync_threshold_us
              then Inr (committed (seeded s) (offset_at s) (start_ts e) i
                          (mapped_diff (offset_at s) (start_ts e) ((f # fs) ! i)),
                        Matched e ((f # fs) ! i))
              else evict_stale (seeded s) (offset_at s) (start_ts e))"
    using assms i(1) commit_match_eq[OF ev len]
    by (simp add: sync_def seed_delta_eq[OF assms] Let_def del: scan_orb_buffer.simps)
  with i(2) show ?thesis by blast
qed


lemma unseeded_front_diff:
  assumes "evs_buffer s = e # es" "orb_buffer s = f # fs" "delta_orb_to_evs s = None"
  shows "mapped_diff (offset_at s) (start_ts e) f = 0"
  using assms by (simp add: mapped_diff_def offset_at_def)

lemma unseeded_best:
  assumes "evs_buffer s = e # es" "orb_buffer s = f # fs" "delta_orb_to_evs s = None"
    and "is_best (offset_at s) (start_ts e) (f # fs) i"
  shows "i = 0"
proof (rule ccontr)
  assume "i \<noteq> 0"
  then have "0 < i" by simp
  with assms(4) have "mapped_diff (offset_at s) (start_ts e) ((f # fs) ! i)
      < mapped_diff (offset_at s) (start_ts e) ((f # fs) ! 0)"
    unfolding is_best_def by blast
  moreover have "0 \<le> mapped_diff (offset_at s) (start_ts e) ((f # fs) ! i)"
    by (simp add: mapped_diff_def)
  ultimately show False
    using unseeded_front_diff[OF assms(1-3)] by simp
qed

lemma seeded_id: "delta_orb_to_evs s = Some d \<Longrightarrow> seeded s = s"
  by (simp add: seeded_def)


lemma sync_total: "\<exists>s' out. sync s = Inr (s', out)"
proof (cases "evs_buffer s")
  case Nil
  then show ?thesis by (simp add: sync_def)
next
  case (Cons e es)
  show ?thesis
  proof (cases "orb_buffer s")
    case Nil
    then show ?thesis by (simp add: sync_def)
  next
    case (Cons f fs)
    from sync_nonempty[OF \<open>evs_buffer s = e # es\<close> Cons] obtain i where
      "sync s =
             (if mapped_diff (offset_at s) (start_ts e) ((f # fs) ! i) < sync_threshold_us
              then Inr (committed (seeded s) (offset_at s) (start_ts e) i
                          (mapped_diff (offset_at s) (start_ts e) ((f # fs) ! i)),
                        Matched e ((f # fs) ! i))
              else evict_stale (seeded s) (offset_at s) (start_ts e))"
      by blast
    moreover have "\<exists>r. evict_stale (seeded s) (offset_at s) (start_ts e) = Inr r"
      using evict_stale_eq[of "seeded s" e es f fs] \<open>evs_buffer s = e # es\<close> Cons by simp
    ultimately show ?thesis by (cases "mapped_diff (offset_at s) (start_ts e) ((f # fs) ! i) < sync_threshold_us") auto
  qed
qed

section \<open>The threshold decides the match\<close>



section \<open>Staleness eviction\<close>

lemma no_frame_in_threshold:
  assumes "is_best d ts xs i"
    and "\<forall>orb \<in> set xs. \<not> mapped_diff d ts orb < sync_threshold_us"
  shows "\<not> mapped_diff d ts (xs ! i) < sync_threshold_us"
  using assms by (simp add: is_best_def)

text \<open>
  Claim C3. In a match attempt with both buffers non-empty where no frame is within the
  threshold of the oldest slice: when the slice is more than 5000 us older than the mapped
  oldest frame, the slice alone is popped; otherwise, when it is more than 5000 us newer
  than the mapped newest frame, the oldest frame alone is popped; otherwise both buffers
  are left as they are.
\<close>

theorem staleness_eviction:
  assumes "evs_buffer s = e # es" and "orb_buffer s = f # fs"
    and "\<forall>orb \<in> set (f # fs). \<not> mapped_diff (offset_at s) (start_ts e) orb < sync_threshold_us"
  shows "\<exists>s' out. sync s = Inr (s', out) \<and>
           (if start_ts e < (rgb_ts f + offset_at s) - 5000
            then evs_buffer s' = es \<and> orb_buffer s' = f # fs
            else if start_ts e > (rgb_ts (last (f # fs)) + offset_at s) + 5000
            then orb_buffer s' = fs \<and> evs_buffer s' = e # es
            else evs_buffer s' = e # es \<and> orb_buffer s' = f # fs)"
proof -
  from sync_nonempty[OF assms(1,2)] obtain i where
    best: "is_best (offset_at s) (start_ts e) (f # fs) i" and
    run: "sync s =
             (if mapped_diff (offset_at s) (start_ts e) ((f # fs) ! i) < sync_threshold_us
              then Inr (committed (seeded s) (offset_at s) (start_ts e) i
                          (mapped_diff (offset_at s) (start_ts e) ((f # fs) ! i)),
                        Matched e ((f # fs) ! i))
              else evict_stale (seeded s) (offset_at s) (start_ts e))"
    by blast
  have ev: "evs_buffer (seeded s) = e # es" "orb_buffer (seeded s) = f # fs"
    using assms by simp_all
  from no_frame_in_threshold[OF best assms(3)] run
  have "sync s = evict_stale (seeded s) (offset_at s) (start_ts e)" by simp
  with evict_stale_eq[OF ev] ev show ?thesis
    by (simp add: sync_threshold_us_def)
qed

theorem staleness_eviction_witness:
  "evs_buffer (mk_state (Some 0) [0, 7] [6000, 7000]) = mk_evs 0 # [mk_evs 7] \<and>
   orb_buffer (mk_state (Some 0) [0, 7] [6000, 7000]) = mk_orb 6000 # [mk_orb 7000] \<and>
   \<not> mapped_diff (offset_at (mk_state (Some 0) [0, 7] [6000, 7000])) (start_ts (mk_evs 0))
        (mk_orb 6000) < sync_threshold_us \<and>
   \<not> mapped_diff (offset_at (mk_state (Some 0) [0, 7] [6000, 7000])) (start_ts (mk_evs 0))
        (mk_orb 7000) < sync_threshold_us \<and>
   (\<exists>s' out. sync (mk_state (Some 0) [0, 7] [6000, 7000]) = Inr (s', out) \<and>
      evs_buffer s' = [mk_evs 7] \<and> orb_buffer s' = mk_orb 6000 # [mk_orb 7000]) \<and>
   evs_buffer (mk_state (Some 0) [20000] [0, 1000]) = mk_evs 20000 # [] \<and>
   orb_buffer (mk_state (Some 0) [20000] [0, 1000]) = mk_orb 0 # [mk_orb 1000] \<and>
   \<not> mapped_diff (offset_at (mk_state (Some 0) [20000] [0, 1000])) (start_ts (mk_evs 20000))
        (mk_orb 0) < sync_threshold_us \<and>
   \<not> mapped_diff (offset_at (mk_state (Some 0) [20000] [0, 1000])) (start_ts (mk_evs 20000))
        (mk_orb 1000) < sync_threshold_us \<and>
   (\<exists>s' out. sync (mk_state (Some 0) [20000] [0, 1000]) = Inr (s', out) \<and>
      evs_buffer s' = [mk_evs 20000] \<and> orb_buffer s' = [mk_orb 1000])"
proof -
  have a: "evs_buffer (mk_state (Some 0) [0, 7] [6000, 7000]) = mk_evs 0 # [mk_evs 7]"
          "orb_buffer (mk_state (Some 0) [0, 7] [6000, 7000]) = mk_orb 6000 # [mk_orb 7000]"
    by (simp_all add: mk_state_def)
  have b: "evs_buffer (mk_state (Some 0) [20000] [0, 1000]) = mk_evs 20000 # []"
          "orb_buffer (mk_state (Some 0) [20000] [0, 1000]) = mk_orb 0 # [mk_orb 1000]"
    by (simp_all add: mk_state_def)
  have o: "offset_at (mk_state (Some 0) [0, 7] [6000, 7000]) = 0"
          "offset_at (mk_state (Some 0) [20000] [0, 1000]) = 0"
    by (simp_all add: mk_state_def offset_at_def)
  have h: "\<forall>orb \<in> set (mk_orb 6000 # [mk_orb 7000]).
      \<not> mapped_diff (offset_at (mk_state (Some 0) [0, 7] [6000, 7000])) (start_ts (mk_evs 0)) orb
          < sync_threshold_us"
    by (simp add: o mapped_diff_def mk_orb_def mk_evs_def sync_threshold_us_def)
  have k: "\<forall>orb \<in> set (mk_orb 0 # [mk_orb 1000]).
      \<not> mapped_diff (offset_at (mk_state (Some 0) [20000] [0, 1000])) (start_ts (mk_evs 20000)) orb
          < sync_threshold_us"
    by (simp add: o mapped_diff_def mk_orb_def mk_evs_def sync_threshold_us_def)
  have r1: "\<exists>s' out. sync (mk_state (Some 0) [0, 7] [6000, 7000]) = Inr (s', out) \<and>
      evs_buffer s' = [mk_evs 7] \<and> orb_buffer s' = mk_orb 6000 # [mk_orb 7000]"
    using staleness_eviction[OF a h] by (simp add: o mk_orb_def mk_evs_def)
  have r2: "\<exists>s' out. sync (mk_state (Some 0) [20000] [0, 1000]) = Inr (s', out) \<and>
      evs_buffer s' = [mk_evs 20000] \<and> orb_buffer s' = [mk_orb 1000]"
    using staleness_eviction[OF b k] by (auto simp: o mk_orb_def mk_evs_def)
  from h k have
    "\<not> mapped_diff (offset_at (mk_state (Some 0) [0, 7] [6000, 7000])) (start_ts (mk_evs 0))
        (mk_orb 6000) < sync_threshold_us"
    "\<not> mapped_diff (offset_at (mk_state (Some 0) [0, 7] [6000, 7000])) (start_ts (mk_evs 0))
        (mk_orb 7000) < sync_threshold_us"
    "\<not> mapped_diff (offset_at (mk_state (Some 0) [20000] [0, 1000])) (start_ts (mk_evs 20000))
        (mk_orb 0) < sync_threshold_us"
    "\<not> mapped_diff (offset_at (mk_state (Some 0) [20000] [0, 1000])) (start_ts (mk_evs 20000))
        (mk_orb 1000) < sync_threshold_us"
    by simp_all
  with a b r1 r2 show ?thesis by blast
qed

section \<open>The frame the scan selects\<close>

text \<open>
  Claim C4. The scan of a non-empty frame buffer returns the index of a frame with the
  smallest mapped difference to the oldest slice, and every frame before it has a strictly
  larger difference: among equal differences the lowest index wins. When \<^verbatim>\<open>sync\<close>
  commits, the matched frame is the one at that index, and it leaves the buffer together
  with every frame before it.
\<close>

theorem lowest_index_minimiser:
  assumes "evs_buffer s = e # es" and "orb_buffer s = f # fs"
  shows "\<exists>i. scan_orb_buffer (offset_at s) (start_ts e) (orb_buffer s) 0 (None, None) =
               (Some i, Some (mapped_diff (offset_at s) (start_ts e) (orb_buffer s ! i))) \<and>
             i < length (orb_buffer s) \<and>
             (\<forall>j<length (orb_buffer s).
                mapped_diff (offset_at s) (start_ts e) (orb_buffer s ! i)
                  \<le> mapped_diff (offset_at s) (start_ts e) (orb_buffer s ! j)) \<and>
             (\<forall>j<i.
                mapped_diff (offset_at s) (start_ts e) (orb_buffer s ! i)
                  < mapped_diff (offset_at s) (start_ts e) (orb_buffer s ! j)) \<and>
             (\<forall>s' matched_evs matched_orb.
                sync s = Inr (s', Matched matched_evs matched_orb) \<longrightarrow>
                  matched_orb = orb_buffer s ! i \<and> orb_buffer s' = drop (Suc i) (orb_buffer s))"
proof -
  have ne: "orb_buffer s \<noteq> []" using assms(2) by simp
  from scan_nonempty[OF ne, of "offset_at s" "start_ts e"] obtain i where
    sc: "scan_orb_buffer (offset_at s) (start_ts e) (orb_buffer s) 0 (None, None) =
          (Some i, Some (mapped_diff (offset_at s) (start_ts e) (orb_buffer s ! i)))" and
    best: "is_best (offset_at s) (start_ts e) (orb_buffer s) i"
    by blast
  from sync_nonempty[OF assms] obtain k where
    bestk: "is_best (offset_at s) (start_ts e) (f # fs) k" and
    run: "sync s =
             (if mapped_diff (offset_at s) (start_ts e) ((f # fs) ! k) < sync_threshold_us
              then Inr (committed (seeded s) (offset_at s) (start_ts e) k
                          (mapped_diff (offset_at s) (start_ts e) ((f # fs) ! k)),
                        Matched e ((f # fs) ! k))
              else evict_stale (seeded s) (offset_at s) (start_ts e))"
    by blast
  have ki: "k = i" using is_best_unique[OF bestk] best assms(2) by simp
  have ev: "evs_buffer (seeded s) = e # es" "orb_buffer (seeded s) = f # fs"
    using assms by simp_all
  have m: "\<forall>s' matched_evs matched_orb.
                sync s = Inr (s', Matched matched_evs matched_orb) \<longrightarrow>
                  matched_orb = orb_buffer s ! i \<and> orb_buffer s' = drop (Suc i) (orb_buffer s)"
  proof (cases "mapped_diff (offset_at s) (start_ts e) ((f # fs) ! k) < sync_threshold_us")
    case True
    with run ki assms(2) show ?thesis
      by (auto simp: committed_def record_matched_def Let_def)
  next
    case False
    with run evict_stale_eq[OF ev] show ?thesis by (auto split: if_splits)
  qed
  from sc best m show ?thesis unfolding is_best_def by blast
qed

theorem lowest_index_minimiser_witness:
  "evs_buffer (mk_state (Some 0) [100] [0, 90, 110]) = mk_evs 100 # [] \<and>
   orb_buffer (mk_state (Some 0) [100] [0, 90, 110]) = mk_orb 0 # [mk_orb 90, mk_orb 110] \<and>
   scan_orb_buffer 0 100 [mk_orb 0, mk_orb 90, mk_orb 110] 0 (None, None) = (Some 1, Some 10) \<and>
   outcome_of (sync (mk_state (Some 0) [100] [0, 90, 110])) = Some (Matched (mk_evs 100) (mk_orb 90))"
proof -
  have a: "evs_buffer (mk_state (Some 0) [100] [0, 90, 110]) = mk_evs 100 # []"
          "orb_buffer (mk_state (Some 0) [100] [0, 90, 110]) = mk_orb 0 # [mk_orb 90, mk_orb 110]"
    by (simp_all add: mk_state_def)
  have sc: "scan_orb_buffer 0 100 [mk_orb 0, mk_orb 90, mk_orb 110] 0 (None, None) = (Some 1, Some 10)"
    by (simp add: mapped_diff_def mk_orb_def)
  have r: "outcome_of (sync (mk_state (Some 0) [100] [0, 90, 110])) = Some (Matched (mk_evs 100) (mk_orb 90))"
    by (simp add: outcome_of_def sync_def seed_delta_def mk_state_def mk_evs_def mk_orb_def
        mapped_diff_def sync_threshold_us_def commit_match_def record_matched_def Let_def)
  from lowest_index_minimiser[OF a] a sc r show ?thesis by simp
qed

section \<open>No access out of bounds\<close>

text \<open>
  Claim C10. Called with both buffers non-empty, \<^verbatim>\<open>sync\<close> returns normally and makes
  a match attempt. The scan assigns \<^verbatim>\<open>best_match_idx\<close> an index inside the frame
  buffer, so the pops of the matched branch succeed; and the reads of the first and last
  frame in the other branch succeed as well.
\<close>

theorem sync_never_raises:
  assumes "evs_buffer s \<noteq> []" and "orb_buffer s \<noteq> []"
  shows "(\<exists>s' out. sync s = Inr (s', out) \<and> out \<noteq> NoAttempt) \<and>
         (\<exists>i min_diff.
            scan_orb_buffer (offset_at s) (start_ts (hd (evs_buffer s))) (orb_buffer s) 0 (None, None)
              = (Some i, Some min_diff) \<and>
            i < length (orb_buffer s) \<and>
            (\<exists>r. commit_match (seeded s) (offset_at s) (start_ts (hd (evs_buffer s))) i min_diff = Inr r)) \<and>
         (\<exists>r. evict_stale (seeded s) (offset_at s) (start_ts (hd (evs_buffer s))) = Inr r)"
proof -
  from assms obtain e es f fs where b: "evs_buffer s = e # es" "orb_buffer s = f # fs"
    by (cases "evs_buffer s"; cases "orb_buffer s") auto
  have ev: "evs_buffer (seeded s) = e # es" "orb_buffer (seeded s) = f # fs"
    using b by simp_all
  from sync_nonempty[OF b] obtain k where
    run: "sync s =
             (if mapped_diff (offset_at s) (start_ts e) ((f # fs) ! k) < sync_threshold_us
              then Inr (committed (seeded s) (offset_at s) (start_ts e) k
                          (mapped_diff (offset_at s) (start_ts e) ((f # fs) ! k)),
                        Matched e ((f # fs) ! k))
              else evict_stale (seeded s) (offset_at s) (start_ts e))"
    by blast
  have 1: "\<exists>s' out. sync s = Inr (s', out) \<and> out \<noteq> NoAttempt"
    using run evict_stale_eq[OF ev] by (auto split: if_splits)
  have ne: "orb_buffer s \<noteq> []" by fact
  from scan_nonempty[OF ne, of "offset_at s" "start_ts e"] obtain i where
    sc: "scan_orb_buffer (offset_at s) (start_ts e) (orb_buffer s) 0 (None, None) =
          (Some i, Some (mapped_diff (offset_at s) (start_ts e) (orb_buffer s ! i)))" and
    best: "is_best (offset_at s) (start_ts e) (orb_buffer s) i"
    by blast
  from best have len: "i < length (orb_buffer (seeded s))" by (simp add: is_best_def)
  have 2: "\<exists>i min_diff.
            scan_orb_buffer (offset_at s) (start_ts (hd (evs_buffer s))) (orb_buffer s) 0 (None, None)
              = (Some i, Some min_diff) \<and>
            i < length (orb_buffer s) \<and>
            (\<exists>r. commit_match (seeded s) (offset_at s) (start_ts (hd (evs_buffer s))) i min_diff = Inr r)"
    using sc len commit_match_eq[OF ev(1) len] b(1) by auto
  have 3: "\<exists>r. evict_stale (seeded s) (offset_at s) (start_ts (hd (evs_buffer s))) = Inr r"
    using evict_stale_eq[OF ev] by simp
  from 1 2 3 show ?thesis by blast
qed

theorem sync_never_raises_witness:
  "evs_buffer (mk_state None [1000] [0]) \<noteq> [] \<and> orb_buffer (mk_state None [1000] [0]) \<noteq> [] \<and>
   outcome_of (sync (mk_state None [1000] [0])) = Some (Matched (mk_evs 1000) (mk_orb 0))"
proof -
  have a: "evs_buffer (mk_state None [1000] [0]) \<noteq> []" "orb_buffer (mk_state None [1000] [0]) \<noteq> []"
    by (simp_all add: mk_state_def)
  have r: "outcome_of (sync (mk_state None [1000] [0])) = Some (Matched (mk_evs 1000) (mk_orb 0))"
    by (simp add: outcome_of_def sync_def seed_delta_def mk_state_def mk_evs_def mk_orb_def
        mapped_diff_def sync_threshold_us_def commit_match_def record_matched_def Let_def)
  from sync_never_raises[OF a] a r show ?thesis by simp
qed

section \<open>The effect of one call and of one iteration\<close>

lemma unseeded_matches:
  assumes "evs_buffer s = e # es" "orb_buffer s = f # fs" "delta_orb_to_evs s = None"
    and "is_best (offset_at s) (start_ts e) (f # fs) i"
  shows "mapped_diff (offset_at s) (start_ts e) ((f # fs) ! i) < sync_threshold_us"
  using unseeded_best[OF assms] unseeded_front_diff[OF assms(1-3)]
  by (simp add: sync_threshold_us_def)

lemma sync_effect:
  assumes "sync s = Inr (s', out)"
  shows "(out = NoAttempt \<and> s' = s \<and> (evs_buffer s = [] \<or> orb_buffer s = [])) \<or>
         (\<exists>e es f fs i. evs_buffer s = e # es \<and> orb_buffer s = f # fs \<and>
            is_best (offset_at s) (start_ts e) (f # fs) i \<and>
            mapped_diff (offset_at s) (start_ts e) ((f # fs) ! i) < sync_threshold_us \<and>
            out = Matched e ((f # fs) ! i) \<and>
            s' = committed (seeded s) (offset_at s) (start_ts e) i
                   (mapped_diff (offset_at s) (start_ts e) ((f # fs) ! i))) \<or>
         (\<exists>e es f fs. evs_buffer s = e # es \<and> orb_buffer s = f # fs \<and>
            delta_orb_to_evs s \<noteq> None \<and>
            ((out = DroppedEvs \<and> s' = s\<lparr> evs_buffer := es \<rparr>) \<or>
             (out = DroppedOrb \<and> s' = s\<lparr> orb_buffer := fs \<rparr>) \<or>
             (out = Waited \<and> s' = s)))"
proof (cases "evs_buffer s = [] \<or> orb_buffer s = []")
  case True
  with assms show ?thesis by (auto simp: sync_def)
next
  case False
  then obtain e es f fs where b: "evs_buffer s = e # es" "orb_buffer s = f # fs"
    by (cases "evs_buffer s"; cases "orb_buffer s") auto
  have ev: "evs_buffer (seeded s) = e # es" "orb_buffer (seeded s) = f # fs"
    using b by simp_all
  from sync_nonempty[OF b] obtain i where
    best: "is_best (offset_at s) (start_ts e) (f # fs) i" and
    run: "sync s =
             (if mapped_diff (offset_at s) (start_ts e) ((f # fs) ! i) < sync_threshold_us
              then Inr (committed (seeded s) (offset_at s) (start_ts e) i
                          (mapped_diff (offset_at s) (start_ts e) ((f # fs) ! i)),
                        Matched e ((f # fs) ! i))
              else evict_stale (seeded s) (offset_at s) (start_ts e))"
    by blast
  show ?thesis
  proof (cases "mapped_diff (offset_at s) (start_ts e) ((f # fs) ! i) < sync_threshold_us")
    case True
    with run assms b best show ?thesis by auto
  next
    case nomatch: False
    have "delta_orb_to_evs s \<noteq> None"
      using unseeded_matches[OF b _ best] nomatch by blast
    then obtain d where d: "delta_orb_to_evs s = Some d" by blast
    have sd: "seeded s = s" by (rule seeded_id[OF d])
    from run nomatch assms evict_stale_eq[OF ev] sd d b show ?thesis
      by (auto split: if_splits)
  qed
qed

lemma committed_fields:
  "evs_buffer (committed s d ts i m) = tl (evs_buffer s)"
  "orb_buffer (committed s d ts i m) = drop (Suc i) (orb_buffer s)"
  "initial_delta_monitoring (committed s d ts i m) = initial_delta_monitoring s"
  "delta_orb_to_evs (committed s d ts i m) =
     Some (d + py_int (of_int (ts - (rgb_ts (orb_buffer s ! i) + d)) * drift_alpha))"
  "record_enabled (committed s d ts i m) = record_enabled s"
  by (simp_all add: committed_def record_matched_def Let_def)

lemma sync_delta:
  assumes "sync s = Inr (s', out)"
  shows "case out of
           Matched matched_evs matched_orb \<Rightarrow>
             delta_orb_to_evs s' =
               Some (offset_at s +
                     py_int (of_int (start_ts matched_evs - (rgb_ts matched_orb + offset_at s))
                             * drift_alpha))
         | _ \<Rightarrow> delta_orb_to_evs s' = delta_orb_to_evs s"
  using sync_effect[OF assms] by (auto simp: committed_fields)

lemma pull_fields [simp]:
  "delta_orb_to_evs (pull s inp) = delta_orb_to_evs s"
  "initial_delta_monitoring (pull s inp) = initial_delta_monitoring s"
  "record_enabled (pull s inp) = record_enabled s"
  "record_idx (pull s inp) = record_idx s"
  "executor (pull s inp) = executor s"
  by (simp_all add: pull_def Let_def split: prod.splits option.splits)

lemma monitor_fields [simp]:
  "delta_orb_to_evs (monitor_buffers s) = delta_orb_to_evs s"
  "initial_delta_monitoring (monitor_buffers s) = initial_delta_monitoring s"
  "record_enabled (monitor_buffers s) = record_enabled s"
  "record_idx (monitor_buffers s) = record_idx s"
  "executor (monitor_buffers s) = executor s"
  "evs_buffer (monitor_buffers s) = evs_buffer s"
  "orb_buffer (monitor_buffers s) = orb_buffer s"
  by (simp_all add: monitor_buffers_def)

lemma tick_sync:
  "tick s inp = Inr (s', out) \<Longrightarrow>
     \<exists>s3. sync (pull s inp) = Inr (s3, out) \<and>
          s' = (if snd (snd inp) then monitor_buffers s3 else s3)"
  by (auto simp: tick_def Let_def sync_def split: if_splits sum.splits)

lemma tick_total: "\<exists>s' out. tick s inp = Inr (s', out)"
  using sync_total[of "pull s inp"] by (auto simp: tick_def Let_def)

lemma sync_process_total: "\<exists>s' outs. sync_process s inps = Inr (s', outs)"
proof (induction inps arbitrary: s)
  case Nil
  then show ?case by simp
next
  case (Cons inp inps)
  from tick_total obtain s1 out where t: "tick s inp = Inr (s1, out)" by blast
  from Cons.IH obtain s2 outs where "sync_process s1 inps = Inr (s2, outs)" by blast
  with t show ?case by simp
qed

section \<open>Drift correction\<close>

text \<open>
  Claim C2, as the spec states it: after a committed match the offset grows by
  \<open>round (drift_alpha * (ts_E - mapped))\<close>. The code converts with \<^verbatim>\<open>int\<close>, which
  truncates toward zero. With offset 0, a slice at 60 and a frame at 0 the match is
  committed and the offset stays 0, where rounding 0.6 would give 1.
\<close>

theorem drift_correction_rounds_counterexample:
  "outcome_of (sync (mk_state (Some 0) [60] [0])) = Some (Matched (mk_evs 60) (mk_orb 0)) \<and>
   offset_after (sync (mk_state (Some 0) [60] [0])) = Some 0 \<and>
   0 + round (drift_alpha * of_int (start_ts (mk_evs 60) - (rgb_ts (mk_orb 0) + 0))) = (1::int)"
  by (simp add: outcome_of_def offset_after_def sync_def seed_delta_def mk_state_def mk_evs_def
      mk_orb_def mapped_diff_def sync_threshold_us_def commit_match_def record_matched_def Let_def
      drift_alpha_def py_int_def round_def floor_eq_iff)

text \<open>
  Claim C2, amended. Every iteration of the processor loop returns normally. When it
  commits a match, the stored offset becomes the offset the attempt worked with plus
  \<^verbatim>\<open>int(drift_alpha * (ts_E - mapped))\<close>, truncated toward zero, where
  \<open>mapped\<close> is the matched frame's \<^verbatim>\<open>rgb_ts\<close> plus that offset and
  \<^verbatim>\<open>drift_alpha\<close> is 0.01. When it does not, the stored offset is unchanged.
\<close>

theorem drift_correction_truncates:
  "drift_alpha = 1 / 100 \<and>
   (\<exists>s' out. tick s inp = Inr (s', out) \<and>
     (case out of
        Matched matched_evs matched_orb \<Rightarrow>
          delta_orb_to_evs s' =
            Some (offset_at (pull s inp) +
                  py_int (of_int (start_ts matched_evs - (rgb_ts matched_orb + offset_at (pull s inp)))
                          * drift_alpha))
      | _ \<Rightarrow> delta_orb_to_evs s' = delta_orb_to_evs s))"
proof -
  from tick_total obtain s' out where t: "tick s inp = Inr (s', out)" by blast
  from tick_sync[OF t] obtain s3 where
    s3: "sync (pull s inp) = Inr (s3, out)" "s' = (if snd (snd inp) then monitor_buffers s3 else s3)"
    by blast
  have d: "delta_orb_to_evs s' = delta_orb_to_evs s3" using s3(2) by simp
  from sync_delta[OF s3(1)] d t show ?thesis
    by (cases out) (auto simp: drift_alpha_def)
qed

section \<open>Seeding the offset\<close>

lemma py_int_zero [simp]: "py_int 0 = 0"
  by (simp add: py_int_def)







section \<open>Order of consumption\<close>

lemma subseq_sorted_wrt:
  "subseq xs ys \<Longrightarrow> sorted_wrt P ys \<Longrightarrow> sorted_wrt P xs"
proof (induction rule: list_emb.induct)
  case (list_emb_Nil ys)
  then show ?case by simp
next
  case (list_emb_Cons xs ys y)
  then show ?case by simp
next
  case (list_emb_Cons2 x y xs ys)
  then have "set xs \<subseteq> set ys" by (auto dest: list_emb_set)
  with list_emb_Cons2 show ?case by auto
qed

lemma deque_append_suffix: "suffix (deque_append buf x) (buf @ [x])"
  by (cases buf) (auto simp: deque_append_def suffix_def)

lemma deque_append_subseq: "subseq (deque_append buf x) (buf @ [x])"
  using deque_append_suffix by (rule suffix_imp_subseq)

lemma evs_inputs_Cons: "evs_inputs (inp # inps) = evs_inputs [inp] @ evs_inputs inps"
proof -
  obtain a b c where "inp = (a, b, c)" by (cases inp) auto
  then show ?thesis by (cases a) auto
qed

lemma orb_inputs_Cons: "orb_inputs (inp # inps) = orb_inputs [inp] @ orb_inputs inps"
proof -
  obtain a b c where "inp = (a, b, c)" by (cases inp) auto
  then show ?thesis by (cases b) auto
qed

lemma matched_pairs_Cons: "matched_pairs (out # outs) = matched_pairs [out] @ matched_pairs outs"
  by (cases out) auto

lemma pull_evs_subseq: "subseq (evs_buffer (pull s inp)) (evs_buffer s @ evs_inputs [inp])"
proof -
  obtain a b c where inp: "inp = (a, b, c)" by (cases inp) auto
  show ?thesis
    using deque_append_subseq[of "evs_buffer s"]
    by (cases a; cases b) (simp_all add: inp pull_def)
qed

lemma pull_orb_subseq: "subseq (orb_buffer (pull s inp)) (orb_buffer s @ orb_inputs [inp])"
proof -
  obtain a b c where inp: "inp = (a, b, c)" by (cases inp) auto
  show ?thesis
    using deque_append_subseq[of "orb_buffer s"]
    by (cases a; cases b) (simp_all add: inp pull_def)
qed

lemma nth_drop_subseq: "i < length xs \<Longrightarrow> subseq (xs ! i # drop (Suc i) xs) xs"
  by (metis Cons_nth_drop_Suc suffix_drop suffix_imp_subseq)

lemma sync_evs_subseq:
  assumes "sync s = Inr (s', out)"
  shows "subseq (map fst (matched_pairs [out]) @ evs_buffer s') (evs_buffer s)"
  using sync_effect[OF assms] by (auto simp: committed_fields)

lemma sync_orb_subseq:
  assumes "sync s = Inr (s', out)"
  shows "subseq (map snd (matched_pairs [out]) @ orb_buffer s') (orb_buffer s)"
proof -
  from sync_effect[OF assms] consider
      (none) "out = NoAttempt" "s' = s"
    | (matched) e f fs i where "orb_buffer s = f # fs" "i < length (f # fs)"
        "out = Matched e ((f # fs) ! i)" "orb_buffer s' = drop (Suc i) (f # fs)"
    | (other) "out = DroppedEvs \<or> out = Waited" "orb_buffer s' = orb_buffer s"
    | (dorb) f fs where "out = DroppedOrb" "orb_buffer s = f # fs" "orb_buffer s' = fs"
    by (auto simp: committed_fields is_best_def)
  then show ?thesis
  proof cases
    case none
    then show ?thesis by simp
  next
    case matched
    with nth_drop_subseq[OF matched(2)] show ?thesis by simp
  next
    case other
    then show ?thesis by auto
  next
    case dorb
    then show ?thesis by auto
  qed
qed

lemma tick_evs_subseq:
  assumes "tick s inp = Inr (s', out)"
  shows "subseq (map fst (matched_pairs [out]) @ evs_buffer s') (evs_buffer s @ evs_inputs [inp])"
proof -
  from tick_sync[OF assms] obtain s3 where
    s3: "sync (pull s inp) = Inr (s3, out)" "s' = (if snd (snd inp) then monitor_buffers s3 else s3)"
    by blast
  have "evs_buffer s' = evs_buffer s3" using s3(2) by simp
  with sync_evs_subseq[OF s3(1)] pull_evs_subseq[of s inp] show ?thesis
    by (metis subseq_order.order_trans)
qed

lemma tick_orb_subseq:
  assumes "tick s inp = Inr (s', out)"
  shows "subseq (map snd (matched_pairs [out]) @ orb_buffer s') (orb_buffer s @ orb_inputs [inp])"
proof -
  from tick_sync[OF assms] obtain s3 where
    s3: "sync (pull s inp) = Inr (s3, out)" "s' = (if snd (snd inp) then monitor_buffers s3 else s3)"
    by blast
  have "orb_buffer s' = orb_buffer s3" using s3(2) by simp
  with sync_orb_subseq[OF s3(1)] pull_orb_subseq[of s inp] show ?thesis
    by (metis subseq_order.order_trans)
qed

lemma subseq_chain:
  assumes "subseq (m @ b1) (b @ i)" and "subseq ms (b1 @ is)"
  shows "subseq (m @ ms) (b @ i @ is)"
proof -
  from assms(2) have "subseq (m @ ms) (m @ b1 @ is)" by (simp add: subseq_append')
  moreover from assms(1) have "subseq ((m @ b1) @ is) ((b @ i) @ is)"
    by (rule list_emb_append_mono) simp
  ultimately show ?thesis by (metis append.assoc subseq_order.order_trans)
qed

lemma sync_process_evs_subseq:
  "sync_process s inps = Inr (s', outs) \<Longrightarrow>
     subseq (map fst (matched_pairs outs)) (evs_buffer s @ evs_inputs inps)"
proof (induction inps arbitrary: s outs)
  case Nil
  then show ?case by auto
next
  case (Cons inp inps)
  from Cons.prems obtain s1 out outs1 where
    t: "tick s inp = Inr (s1, out)" and r: "sync_process s1 inps = Inr (s', outs1)" and
    o: "outs = out # outs1"
    by (auto split: sum.splits)
  from subseq_chain[OF tick_evs_subseq[OF t] Cons.IH[OF r]]
  show ?case
    unfolding o matched_pairs_Cons[of out outs1] evs_inputs_Cons[of inp inps] by simp
qed

lemma sync_process_orb_subseq:
  "sync_process s inps = Inr (s', outs) \<Longrightarrow>
     subseq (map snd (matched_pairs outs)) (orb_buffer s @ orb_inputs inps)"
proof (induction inps arbitrary: s outs)
  case Nil
  then show ?case by auto
next
  case (Cons inp inps)
  from Cons.prems obtain s1 out outs1 where
    t: "tick s inp = Inr (s1, out)" and r: "sync_process s1 inps = Inr (s', outs1)" and
    o: "outs = out # outs1"
    by (auto split: sum.splits)
  from subseq_chain[OF tick_orb_subseq[OF t] Cons.IH[OF r]]
  show ?case
    unfolding o matched_pairs_Cons[of out outs1] orb_inputs_Cons[of inp inps] by simp
qed

lemma subseq_map_sorted_wrt:
  "subseq xs ys \<Longrightarrow> sorted_wrt P (map f ys) \<Longrightarrow> sorted_wrt P (map f xs)"
  by (rule subseq_sorted_wrt[of "map f xs" "map f ys"]) (simp_all add: subseq_map)

text \<open>
  Claim C6, as the spec states it: when each producer's timestamps are non-decreasing,
  the \<^verbatim>\<open>start_ts\<close> of the matched slices and the \<^verbatim>\<open>rgb_ts\<close> of the matched
  frames are strictly increasing. Two slices with the same \<^verbatim>\<open>start_ts\<close> and two
  frames with the same \<^verbatim>\<open>rgb_ts\<close> are non-decreasing inputs; both pairs are matched,
  and neither matched sequence is strictly increasing.
\<close>

theorem matched_timestamps_strict_counterexample:
  "sorted (map start_ts (evs_inputs
      [(Some (mk_evs 1000), Some (mk_orb 0), False), (Some (mk_evs 1000), Some (mk_orb 0), False)])) \<and>
   sorted (map rgb_ts (orb_inputs
      [(Some (mk_evs 1000), Some (mk_orb 0), False), (Some (mk_evs 1000), Some (mk_orb 0), False)])) \<and>
   map start_ts (map fst (matched_of (sync_process (init False)
      [(Some (mk_evs 1000), Some (mk_orb 0), False), (Some (mk_evs 1000), Some (mk_orb 0), False)])))
     = [1000, 1000] \<and>
   map rgb_ts (map snd (matched_of (sync_process (init False)
      [(Some (mk_evs 1000), Some (mk_orb 0), False), (Some (mk_evs 1000), Some (mk_orb 0), False)])))
     = [0, 0] \<and>
   \<not> sorted_wrt (<) [1000, 1000 :: int] \<and> \<not> sorted_wrt (<) [0, 0 :: int]"
  by code_simp

text \<open>
  Claim C6, amended. Every run of the loop returns normally, and the matched slices, in
  match order, are a subsequence of the slices the run started with followed by those it
  pulled; likewise the matched frames. So the matched \<^verbatim>\<open>start_ts\<close> values are
  non-decreasing when the producer's are, and strictly increasing when the producer's are
  strictly increasing; likewise the matched \<^verbatim>\<open>rgb_ts\<close> values.
\<close>

theorem matched_timestamps_follow_producers:
  "\<exists>s' outs. sync_process s inps = Inr (s', outs) \<and>
     subseq (map fst (matched_pairs outs)) (evs_buffer s @ evs_inputs inps) \<and>
     subseq (map snd (matched_pairs outs)) (orb_buffer s @ orb_inputs inps) \<and>
     (sorted (map start_ts (evs_buffer s @ evs_inputs inps)) \<longrightarrow>
        sorted (map start_ts (map fst (matched_pairs outs)))) \<and>
     (sorted (map rgb_ts (orb_buffer s @ orb_inputs inps)) \<longrightarrow>
        sorted (map rgb_ts (map snd (matched_pairs outs)))) \<and>
     (sorted_wrt (<) (map start_ts (evs_buffer s @ evs_inputs inps)) \<longrightarrow>
        sorted_wrt (<) (map start_ts (map fst (matched_pairs outs)))) \<and>
     (sorted_wrt (<) (map rgb_ts (orb_buffer s @ orb_inputs inps)) \<longrightarrow>
        sorted_wrt (<) (map rgb_ts (map snd (matched_pairs outs))))"
proof -
  from sync_process_total obtain s' outs where r: "sync_process s inps = Inr (s', outs)" by blast
  note e = sync_process_evs_subseq[OF r]
  note f = sync_process_orb_subseq[OF r]
  from r e f subseq_map_sorted_wrt[OF e, of _ start_ts] subseq_map_sorted_wrt[OF f, of _ rgb_ts]
  show ?thesis by blast
qed

theorem matched_timestamps_follow_producers_witness:
  "sorted (map start_ts (evs_buffer (init True) @ evs_inputs
      [(Some (mk_evs 1000), Some (mk_orb 0), False),
       (Some (mk_evs 34000), Some (mk_orb 33000), False),
       (Some (mk_evs 67000), Some (mk_orb 66000), True)])) \<and>
   sorted (map rgb_ts (orb_buffer (init True) @ orb_inputs
      [(Some (mk_evs 1000), Some (mk_orb 0), False),
       (Some (mk_evs 34000), Some (mk_orb 33000), False),
       (Some (mk_evs 67000), Some (mk_orb 66000), True)])) \<and>
   sorted_wrt (<) (map start_ts (evs_buffer (init True) @ evs_inputs
      [(Some (mk_evs 1000), Some (mk_orb 0), False),
       (Some (mk_evs 34000), Some (mk_orb 33000), False),
       (Some (mk_evs 67000), Some (mk_orb 66000), True)])) \<and>
   sorted_wrt (<) (map rgb_ts (orb_buffer (init True) @ orb_inputs
      [(Some (mk_evs 1000), Some (mk_orb 0), False),
       (Some (mk_evs 34000), Some (mk_orb 33000), False),
       (Some (mk_evs 67000), Some (mk_orb 66000), True)])) \<and>
   (\<exists>s' outs. sync_process (init True)
      [(Some (mk_evs 1000), Some (mk_orb 0), False),
       (Some (mk_evs 34000), Some (mk_orb 33000), False),
       (Some (mk_evs 67000), Some (mk_orb 66000), True)] = Inr (s', outs) \<and>
      sorted (map start_ts (map fst (matched_pairs outs))) \<and>
      sorted (map rgb_ts (map snd (matched_pairs outs))) \<and>
      sorted_wrt (<) (map start_ts (map fst (matched_pairs outs))) \<and>
      sorted_wrt (<) (map rgb_ts (map snd (matched_pairs outs))))"
proof -
  let ?I = "[(Some (mk_evs 1000), Some (mk_orb 0), False),
       (Some (mk_evs 34000), Some (mk_orb 33000), False),
       (Some (mk_evs 67000), Some (mk_orb 66000), True)]"
  have h: "sorted (map start_ts (evs_buffer (init True) @ evs_inputs ?I))"
    "sorted (map rgb_ts (orb_buffer (init True) @ orb_inputs ?I))"
    "sorted_wrt (<) (map start_ts (evs_buffer (init True) @ evs_inputs ?I))"
    "sorted_wrt (<) (map rgb_ts (orb_buffer (init True) @ orb_inputs ?I))"
    by (simp_all add: init_def mk_evs_def mk_orb_def)
  from matched_timestamps_follow_producers[of "init True" ?I] h
  show ?thesis by blast
qed

text \<open>The end-to-end scenario of the spec: three slices, three frames, three matches.\<close>

lemma end_to_end_scenario:
  "map start_ts (map fst (matched_of (sync_process (init True)
      [(Some (mk_evs 1000), Some (mk_orb 0), False),
       (Some (mk_evs 34000), Some (mk_orb 33000), False),
       (Some (mk_evs 67000), Some (mk_orb 66000), True)]))) = [1000, 34000, 67000]"
  by code_simp

section \<open>Persisted artifacts\<close>



















lemma length_bundles_from [simp]: "length (bundles_from k ps) = length ps"
  by (induction ps arbitrary: k) simp_all












section \<open>Pushing into a full queue\<close>

text \<open>
  The slice queue: a push into the full queue leaves the queue as it was, prints one
  warning and goes on; six pushes into the empty queue of capacity five keep the first
  five slices and print one warning.
\<close>

lemma put_slice_full:
  "full q \<Longrightarrow> put_slice (q, printed_lines) slice = Continues (q, printed_lines @ [slice_warning])"
  by (simp add: put_slice_def)

lemma put_slice_not_full:
  "\<not> full q \<Longrightarrow>
     put_slice (q, printed_lines) slice = Continues (q\<lparr> items := items q @ [slice] \<rparr>, printed_lines)"
  by (simp add: put_slice_def put_def)

lemma put_slices_six:
  "put_slices (\<lparr> maxsize = 5, items = [] \<rparr>, []) (map mk_evs [1, 2, 3, 4, 5, 6]) =
     Continues (\<lparr> maxsize = 5, items = map mk_evs [1, 2, 3, 4, 5] \<rparr>, [slice_warning])"
  by (simp add: put_slice_def put_def full_def)

text \<open>
  The queue from the frame producer to the synchronizer: when it is full and the display
  queue is not, the worker prints its warning and then waits in \<^verbatim>\<open>put\<close>, the queue
  unchanged.
\<close>

lemma orbbec_worker_body_sync_full:
  assumes "\<not> full (o_queue st)" and "full (o_queue_sync st)"
    and "cap_rgb cap = Some rgb_img" and "cap_depth cap = Some depth_img"
  shows "\<exists>st'. orbbec_worker_body st cap = Blocked st' \<and>
           o_queue_sync st' = o_queue_sync st \<and>
           printed st' = printed st @ [sync_queue_warning]"
  using assms
  by (auto simp: orbbec_worker_body_def put_def Let_def split: option.splits)

text \<open>
  Claim C8. The claim says that a push into the full queue of capacity five discards the
  new item, logs one warning and does not block the producer. The slice queue does so
  (lemmas above). The frame producer does not: with five frames queued and a sixth
  captured, \<^verbatim>\<open>orbbec_worker\<close> prints that it drops the frame, puts the display item, and
  then waits in \<^verbatim>\<open>o_queue_sync.put\<close>.
\<close>

theorem sync_queue_full_blocks_producer:
  "full (o_queue_sync (mk_worker [] [1, 2, 3, 4, 5])) \<and>
   orbbec_worker_body (mk_worker [] [1, 2, 3, 4, 5]) (mk_capture 6) =
     Blocked \<lparr> o_queue = \<lparr> maxsize = 1,
                           items = [\<lparr> display_rgb = [], display_depth = [], display_pc = None \<rparr>] \<rparr>,
               o_queue_sync = \<lparr> maxsize = 5, items = map mk_orb [1, 2, 3, 4, 5] \<rparr>,
               p_queue = None,
               printed = [sync_queue_warning] \<rparr>"
  by (simp add: orbbec_worker_body_def mk_worker_def mk_capture_def put_def full_def Let_def)

text \<open>
  The display queue: when it is full, the worker leaves it as it is, whatever the name
  \<^verbatim>\<open>p_queue\<close> refers to, and waits in \<^verbatim>\<open>o_queue.put\<close>.
\<close>

lemma orbbec_worker_body_display_full:
  assumes "full (o_queue st)" and "cap_rgb cap = Some rgb_img" and "cap_depth cap = Some depth_img"
  shows "\<exists>st'. orbbec_worker_body st cap = Blocked st' \<and> o_queue st' = o_queue st \<and>
           o_queue_sync st' = o_queue_sync st"
  using assms
  by (auto simp: orbbec_worker_body_def try_drain_p_queue_def put_def Let_def
      split: option.splits sum.splits)

text \<open>
  Claim C9. The claim says that a push into the full display queue removes the stale item
  from that queue and inserts the new frame without blocking. With one stale item in the
  display queue and a new frame captured, \<^verbatim>\<open>orbbec_worker\<close> calls
  \<^verbatim>\<open>get_nowait\<close> on \<^verbatim>\<open>p_queue\<close>, not on \<^verbatim>\<open>o_queue\<close>: the stale item stays, and
  the worker waits in \<^verbatim>\<open>o_queue.put\<close>. Where \<^verbatim>\<open>p_queue\<close> is bound, it is the event
  camera's display queue that loses an item.
\<close>

theorem display_queue_full_keeps_stale_frame:
  "full (o_queue (mk_worker [mk_display 0] [])) \<and>
   orbbec_worker_body (mk_worker [mk_display 0] []) (mk_capture 6) =
     Blocked (mk_worker [mk_display 0] []) \<and>
   items (o_queue (mk_worker [mk_display 0] [])) = [mk_display 0] \<and>
   orbbec_worker_body
     ((mk_worker [mk_display 0] []) \<lparr> p_queue := Some \<lparr> maxsize = 1, items = [[7]] \<rparr> \<rparr>)
     (mk_capture 6) =
     Blocked ((mk_worker [mk_display 0] []) \<lparr> p_queue := Some \<lparr> maxsize = 1, items = [] \<rparr> \<rparr>)"
  by (simp add: orbbec_worker_body_def mk_worker_def mk_capture_def mk_display_def put_def full_def
      try_drain_p_queue_def get_nowait_def Let_def)

end
